theory Spec2Isabelle
  imports Main
begin

section \<open>Mailhop email worker: strings\<close>

text \<open>
  The worker (workers/email/src/index.js) works on JavaScript strings. They are modelled
  as \<open>string\<close>, a list of 8-bit characters read as the code units U+0000 to U+00FF.
  On that range \<open>String.prototype.trim\<close> strips TAB, LF, VT, FF, CR, SPACE and NBSP, and
  \<open>String.prototype.toLowerCase\<close> adds 32 to A-Z and to the upper-case letters of
  U+00C0 to U+00DE (all of that range but U+00D7, the multiplication sign).
\<close>

definition is_space :: "char \<Rightarrow> bool" where
  "is_space c = (let n = (of_char c :: nat) in (9 \<le> n \<and> n \<le> 13) \<or> n = 32 \<or> n = 160)"

definition trim :: "string \<Rightarrow> string" where
  "trim s = rev (dropWhile is_space (rev (dropWhile is_space s)))"

definition to_lower_char :: "char \<Rightarrow> char" where
  "to_lower_char c =
     (let n = (of_char c :: nat)
      in if (65 \<le> n \<and> n \<le> 90) \<or> (192 \<le> n \<and> n \<le> 222 \<and> n \<noteq> 215)
         then char_of (n + 32) else c)"

definition toLowerCase :: "string \<Rightarrow> string" where
  "toLowerCase s = map to_lower_char s"

text \<open>\<open>s.indexOf(c)\<close> and \<open>s.lastIndexOf(c)\<close> for a one-character needle: -1 when absent.\<close>

fun indexOf :: "string \<Rightarrow> char \<Rightarrow> int" where
  "indexOf [] c = -1"
| "indexOf (x # xs) c =
     (if x = c then 0 else (let i = indexOf xs c in if i < 0 then -1 else i + 1))"

definition lastIndexOf :: "string \<Rightarrow> char \<Rightarrow> int" where
  "lastIndexOf s c =
     (let i = indexOf (rev s) c in if i < 0 then -1 else int (length s) - 1 - i)"

text \<open>\<open>s.slice(b, e)\<close> and \<open>s.slice(b)\<close>: a negative index counts from the end, and both
  indices are clamped to the string.\<close>

definition clamp_index :: "int \<Rightarrow> nat \<Rightarrow> nat" where
  "clamp_index i n = (if i < 0 then nat (max (int n + i) 0) else min (nat i) n)"

definition slice :: "string \<Rightarrow> int \<Rightarrow> int \<Rightarrow> string" where
  "slice s b e =
     (let lo = clamp_index b (length s); hi = clamp_index e (length s)
      in take (hi - lo) (drop lo s))"

definition slice_from :: "string \<Rightarrow> int \<Rightarrow> string" where
  "slice_from s b = slice s b (int (length s))"

section \<open>Utilities of the worker\<close>

text \<open>\<open>norm(s)\<close> is \<open>(s || "").trim().toLowerCase()\<close>; for a string \<open>s\<close> the
  disjunction \<open>s || ""\<close> is \<open>s\<close> itself (the empty string is the only falsy string).\<close>

definition norm :: "string \<Rightarrow> string" where
  "norm s = toLowerCase (trim s)"

datatype js_error = JsError string

record alias_row =
  address :: string
  forward_to :: string
  allow_plus :: int

record log_entry =
  entry_id :: string
  entry_from :: string
  entry_to :: string
  entry_size :: int
  entry_domain :: string
  entry_route :: string
  entry_base :: "string option"
  entry_dest :: "string option"
  entry_result :: string
  entry_error :: "string option"

record log_row =
  row_ts :: int
  row_message_id :: "string option"
  row_from_addr :: "string option"
  row_to_addr :: "string option"
  row_route :: "string option"
  row_base_addr :: "string option"
  row_dest_addr :: "string option"
  row_result :: "string option"
  row_size_bytes :: int
  row_error :: "string option"

text \<open>
  The environment bindings: \<open>DOMAIN\<close> is \<open>env.DOMAIN\<close> (\<open>None\<close> when the variable is
  not set); \<open>DB_first\<close> is the prepared SELECT on the aliases table run with \<open>.first()\<close>,
  which gives a row, null, or throws; \<open>DB_run\<close> is the INSERT into email_logs, which may
  throw. \<open>now_ms\<close> is what \<open>Date.now()\<close> returns and \<open>randomUUID\<close> what
  \<open>crypto.randomUUID()\<close> returns. The object \<open>env\<close> itself is always there, so
  \<open>env && env.DOMAIN\<close> is \<open>env.DOMAIN\<close>.
\<close>

record env =
  DOMAIN :: "string option"
  DB_first :: "string \<Rightarrow> js_error + alias_row option"
  DB_run :: "log_row \<Rightarrow> js_error option"
  now_ms :: int
  randomUUID :: string

text \<open>The inbound message: \<open>msg_forward\<close> is \<open>message.forward\<close>, which returns or throws.\<close>

record message =
  msg_from :: string
  msg_to :: string
  msg_rawSize :: int
  msg_message_id :: "string option"
  msg_forward :: "string \<Rightarrow> js_error option"

definition getDomain :: "env \<Rightarrow> string" where
  "getDomain e =
     (let configured = (case DOMAIN e of None \<Rightarrow> '''' | Some d \<Rightarrow> if d = '''' then '''' else norm d)
      in if configured = '''' then ''example.com'' else configured)"

record split_address =
  local_part :: string
  domain_part :: string
  full :: string

definition splitAddress :: "string \<Rightarrow> split_address" where
  "splitAddress raw =
     (let f = norm raw; at = lastIndexOf f (CHR ''@'')
      in if at < 1 then \<lparr>local_part = '''', domain_part = '''', full = f\<rparr>
         else \<lparr>local_part = slice f 0 at, domain_part = slice_from f (at + 1), full = f\<rparr>)"

definition isOurDomain :: "string \<Rightarrow> env \<Rightarrow> bool" where
  "isOurDomain addr e = (domain_part (splitAddress addr) = getDomain e)"

definition wouldLoop :: "string \<Rightarrow> env \<Rightarrow> bool" where
  "wouldLoop forwardTo e = isOurDomain forwardTo e"

section \<open>Effects\<close>

text \<open>
  The handler is a computation over the trace of the calls it has made on its
  collaborators, in order: a lookup in the aliases table, \<open>message.forward\<close>, a console
  line, the INSERT of the log row, \<open>message.setReject\<close>. A computation returns a value
  (\<open>Inr\<close>) or throws (\<open>Inl\<close>). The lookup, the forward and the INSERT may throw;
  \<open>console.log\<close> and \<open>message.setReject\<close> return.
\<close>

datatype event =
    Lookup string
  | Forward string
  | Console log_entry
  | Insert log_row
  | SetReject string

type_synonym 'a io = "event list \<Rightarrow> (js_error + 'a) \<times> event list"

definition return_io :: "'a \<Rightarrow> 'a io" where
  "return_io x t = (Inr x, t)"

definition bind_io :: "'a io \<Rightarrow> ('a \<Rightarrow> 'b io) \<Rightarrow> 'b io" where
  "bind_io m f t = (case m t of (Inl err, t') \<Rightarrow> (Inl err, t') | (Inr x, t') \<Rightarrow> f x t')"

definition try_catch :: "'a io \<Rightarrow> (js_error \<Rightarrow> 'a io) \<Rightarrow> 'a io" where
  "try_catch m h t = (case m t of (Inl err, t') \<Rightarrow> h err t' | (Inr x, t') \<Rightarrow> (Inr x, t'))"

fun block :: "unit io list \<Rightarrow> unit io" where
  "block [] = return_io ()"
| "block (m # ms) = bind_io m (\<lambda>_. block ms)"

definition first_row :: "env \<Rightarrow> string \<Rightarrow> alias_row option io" where
  "first_row e key t = (DB_first e key, t @ [Lookup key])"

definition forward :: "message \<Rightarrow> string \<Rightarrow> unit io" where
  "forward m dest t =
     ((case msg_forward m dest of None \<Rightarrow> Inr () | Some err \<Rightarrow> Inl err), t @ [Forward dest])"

definition setReject :: "string \<Rightarrow> unit io" where
  "setReject reason t = (Inr (), t @ [SetReject reason])"

definition logEvent :: "log_entry \<Rightarrow> unit io" where
  "logEvent entry t = (Inr (), t @ [Console entry])"

definition run_insert :: "env \<Rightarrow> log_row \<Rightarrow> unit io" where
  "run_insert e r t = ((case DB_run e r of None \<Rightarrow> Inr () | Some err \<Rightarrow> Inl err), t @ [Insert r])"

text \<open>\<open>x || null\<close> on a string that may be undefined.\<close>

definition or_null :: "string option \<Rightarrow> string option" where
  "or_null x = (case x of None \<Rightarrow> None | Some s \<Rightarrow> if s = '''' then None else Some s)"

definition bound_row :: "env \<Rightarrow> log_entry \<Rightarrow> log_row" where
  "bound_row e entry =
     \<lparr>row_ts = now_ms e div 1000,
      row_message_id = or_null (Some (entry_id entry)),
      row_from_addr = or_null (Some (entry_from entry)),
      row_to_addr = or_null (Some (entry_to entry)),
      row_route = or_null (Some (entry_route entry)),
      row_base_addr = or_null (entry_base entry),
      row_dest_addr = or_null (entry_dest entry),
      row_result = or_null (Some (entry_result entry)),
      row_size_bytes = entry_size entry,
      row_error = (case or_null (entry_error entry) of None \<Rightarrow> None
                   | Some s \<Rightarrow> Some (slice s 0 2000))\<rparr>"

definition persistLog :: "env \<Rightarrow> log_entry \<Rightarrow> unit io" where
  "persistLog e entry = try_catch (run_insert e (bound_row e entry)) (\<lambda>_. return_io ())"

section \<open>The email handler\<close>

definition String :: "js_error \<Rightarrow> string" where
  "String err = (case err of JsError s \<Rightarrow> s)"

text \<open>
  \<open>msgMeta\<close>, built before the \<open>try\<close>: the id is the Message-Id header, or a fresh UUID
  when the header is missing or empty. The fields a branch adds later (route, base, dest,
  result, error) start out absent.
\<close>

definition msgMeta :: "message \<Rightarrow> env \<Rightarrow> log_entry" where
  "msgMeta m e =
     \<lparr>entry_id = (case msg_message_id m of None \<Rightarrow> randomUUID e
                   | Some i \<Rightarrow> if i = '''' then randomUUID e else i),
      entry_from = msg_from m,
      entry_to = msg_to m,
      entry_size = msg_rawSize m,
      entry_domain = getDomain e,
      entry_route = '''',
      entry_base = None,
      entry_dest = None,
      entry_result = '''',
      entry_error = None\<rparr>"

text \<open>Step 0 of the handler: the recipient is not of the worker's domain.\<close>

definition email_invalid :: "message \<Rightarrow> env \<Rightarrow> unit io" where
  "email_invalid m e =
     (let rcpt = splitAddress (msg_to m); domain = getDomain e;
          entry = (msgMeta m e)\<lparr>entry_route := ''invalid-domain'', entry_result := ''rejected'',
            entry_error := Some (''recipient domain ''
              @ (if domain_part rcpt = '''' then ''<none>'' else domain_part rcpt)
              @ '' does not match worker domain '' @ domain)\<rparr>
      in block [logEvent entry, persistLog e entry,
                setReject ''550 Invalid recipient for this domain''])"

text \<open>Step 1: the exact lookup gave the row \<open>exact\<close>.\<close>

definition email_exact :: "message \<Rightarrow> env \<Rightarrow> alias_row \<Rightarrow> unit io" where
  "email_exact m e exact =
     (if wouldLoop (forward_to exact) e then
        (let entry = (msgMeta m e)\<lparr>entry_route := ''exact'', entry_dest := Some (forward_to exact),
               entry_result := ''rejected'',
               entry_error := Some ''routing loop detected (forward_to is in our own domain)''\<rparr>
         in block [logEvent entry, persistLog e entry, setReject ''550 Routing loop detected''])
      else
        try_catch
          (let entry = (msgMeta m e)\<lparr>entry_route := ''exact'', entry_dest := Some (forward_to exact),
                 entry_result := ''forwarded''\<rparr>
           in block [forward m (forward_to exact), logEvent entry, persistLog e entry])
          (\<lambda>err.
             let entry = (msgMeta m e)\<lparr>entry_route := ''exact'', entry_dest := Some (forward_to exact),
                   entry_result := ''error'', entry_error := Some (String err)\<rparr>
             in block [logEvent entry, persistLog e entry, setReject ''550 Destination not verified'']))"

text \<open>Step 2, inside \<open>if (baseRow && Number(baseRow.allow_plus) === 1)\<close>.\<close>

definition email_plus :: "message \<Rightarrow> env \<Rightarrow> string \<Rightarrow> alias_row \<Rightarrow> unit io" where
  "email_plus m e base baseRow =
     (if wouldLoop (forward_to baseRow) e then
        (let entry = (msgMeta m e)\<lparr>entry_route := ''base+tag'', entry_base := Some base,
               entry_dest := Some (forward_to baseRow), entry_result := ''rejected'',
               entry_error := Some ''routing loop detected (forward_to is in our own domain)''\<rparr>
         in block [logEvent entry, persistLog e entry, setReject ''550 Routing loop detected''])
      else
        try_catch
          (let entry = (msgMeta m e)\<lparr>entry_route := ''base+tag'', entry_base := Some base,
                 entry_dest := Some (forward_to baseRow), entry_result := ''forwarded''\<rparr>
           in block [forward m (forward_to baseRow), logEvent entry, persistLog e entry])
          (\<lambda>err.
             let entry = (msgMeta m e)\<lparr>entry_route := ''base+tag'', entry_base := Some base,
                   entry_dest := Some (forward_to baseRow), entry_result := ''error'',
                   entry_error := Some (String err)\<rparr>
             in block [logEvent entry, persistLog e entry, setReject ''550 Destination not verified'']))"

text \<open>Step 3: no match at all.\<close>

definition email_none :: "message \<Rightarrow> env \<Rightarrow> unit io" where
  "email_none m e =
     (let domain = getDomain e;
          entry = (msgMeta m e)\<lparr>entry_route := ''none'', entry_result := ''rejected'',
            entry_error := Some ''no matching alias or plus-base alias found''\<rparr>
      in block [logEvent entry, persistLog e entry,
                setReject (''550 No such user at '' @ (if domain = '''' then ''this domain'' else domain))])"

text \<open>The body of the outer \<open>try\<close>.\<close>

definition email_try :: "message \<Rightarrow> env \<Rightarrow> unit io" where
  "email_try m e =
     (let rcpt = splitAddress (msg_to m); domain = getDomain e
      in if local_part rcpt = '''' \<or> domain_part rcpt \<noteq> domain then email_invalid m e
         else
           bind_io (first_row e (full rcpt)) (\<lambda>exact.
             case exact of
               Some row \<Rightarrow> email_exact m e row
             | None \<Rightarrow>
                 (let plusIdx = indexOf (local_part rcpt) (CHR ''+'')
                  in if plusIdx > -1 then
                       (let baseLocal = slice (local_part rcpt) 0 plusIdx;
                            base = baseLocal @ ''@'' @ domain_part rcpt
                        in bind_io (first_row e base) (\<lambda>baseRow.
                             case baseRow of
                               Some row \<Rightarrow>
                                 if allow_plus row = 1 then email_plus m e base row
                                 else email_none m e
                             | None \<Rightarrow> email_none m e))
                     else email_none m e)))"

text \<open>The last-resort handler, the body of the outer \<open>catch\<close>.\<close>

definition email_catch :: "message \<Rightarrow> env \<Rightarrow> js_error \<Rightarrow> unit io" where
  "email_catch m e err =
     (let entry = (msgMeta m e)\<lparr>entry_route := ''exception'', entry_result := ''error'',
            entry_error := Some (String err)\<rparr>
      in block [logEvent entry, persistLog e entry, setReject ''550 Internal error''])"

definition email :: "message \<Rightarrow> env \<Rightarrow> unit io" where
  "email m e = try_catch (email_try m e) (email_catch m e)"

section \<open>Reading a trace\<close>

fun lookups :: "event list \<Rightarrow> string list" where
  "lookups [] = []"
| "lookups (Lookup k # t) = k # lookups t"
| "lookups (_ # t) = lookups t"

fun forwards :: "event list \<Rightarrow> string list" where
  "forwards [] = []"
| "forwards (Forward d # t) = d # forwards t"
| "forwards (_ # t) = forwards t"

fun inserts :: "event list \<Rightarrow> log_row list" where
  "inserts [] = []"
| "inserts (Insert r # t) = r # inserts t"
| "inserts (_ # t) = inserts t"

fun rejects :: "event list \<Rightarrow> string list" where
  "rejects [] = []"
| "rejects (SetReject r # t) = r # rejects t"
| "rejects (_ # t) = rejects t"

text \<open>The destinations for which \<open>message.forward\<close> was called and returned.\<close>

definition delivered :: "message \<Rightarrow> event list \<Rightarrow> string list" where
  "delivered m t = filter (\<lambda>d. msg_forward m d = None) (forwards t)"

text \<open>The texts the handler passes to \<open>message.setReject\<close>, in the order invalid domain,
  routing loop, no match, delivery failed, internal error.\<close>

definition reject_reasons :: "env \<Rightarrow> string list" where
  "reject_reasons e =
     [''550 Invalid recipient for this domain'',
      ''550 Routing loop detected'',
      ''550 No such user at '' @ getDomain e,
      ''550 Destination not verified'',
      ''550 Internal error'']"

text \<open>The base address of step 2: \<open>baseLocal\<close>, then \<open>@\<close>, then \<open>rcpt.domain\<close>, with
  \<open>baseLocal = rcpt.local.slice(0, plusIdx)\<close> and \<open>plusIdx = rcpt.local.indexOf("+")\<close>.\<close>

abbreviation plus_base :: "split_address \<Rightarrow> string" where
  "plus_base rcpt \<equiv>
     slice (local_part rcpt) 0 (indexOf (local_part rcpt) (CHR ''+'')) @ ''@'' @ domain_part rcpt"

text \<open>A trace that holds lookups only, and the shape of a finished run: the handler
  returned, made one INSERT, and either one forward returned and no reject was set, or no
  forward returned and one reject was set.\<close>

definition quiet :: "event list \<Rightarrow> bool" where
  "quiet t = (forwards t = [] \<and> inserts t = [] \<and> rejects t = [])"

definition settled :: "message \<Rightarrow> env \<Rightarrow> (js_error + unit) \<times> event list \<Rightarrow> bool" where
  "settled m e res =
     (fst res = Inr () \<and> length (inserts (snd res)) = 1 \<and>
      ((rejects (snd res) = [] \<and> (\<exists>d. forwards (snd res) = [d] \<and> msg_forward m d = None))
       \<or> (delivered m (snd res) = [] \<and>
           (\<exists>r. rejects (snd res) = [r] \<and> r \<in> set (reject_reasons e) \<and> take 4 r = ''550 ''))))"

section \<open>Example collaborators\<close>

text \<open>
  Collaborators to run the handler on concrete messages: an alias table held as a list
  of rows and looked up by address, a log table whose INSERT succeeds or throws, a
  transport whose \<open>forward\<close> returns or throws, and a few alias tables.
\<close>

definition store_first :: "alias_row list \<Rightarrow> string \<Rightarrow> js_error + alias_row option" where
  "store_first rows key = Inr (find (\<lambda>r. address r = key) rows)"

definition insert_ok :: "log_row \<Rightarrow> js_error option" where
  "insert_ok r = None"

definition insert_fails :: "log_row \<Rightarrow> js_error option" where
  "insert_fails r = Some (JsError ''D1_ERROR: no such table: email_logs'')"

definition forward_ok :: "string \<Rightarrow> js_error option" where
  "forward_ok dest = None"

definition forward_fails :: "string \<Rightarrow> js_error option" where
  "forward_fails dest = Some (JsError ''destination address not verified'')"

definition mk_alias :: "string \<Rightarrow> string \<Rightarrow> int \<Rightarrow> alias_row" where
  "mk_alias a f p = \<lparr>address = a, forward_to = f, allow_plus = p\<rparr>"

definition example_env :: "alias_row list \<Rightarrow> env" where
  "example_env rows =
     \<lparr>DOMAIN = Some ''example.com'', DB_first = store_first rows, DB_run = insert_ok,
      now_ms = 0, randomUUID = ''00000000-0000-4000-8000-000000000000''\<rparr>"

definition example_message :: "string \<Rightarrow> message" where
  "example_message rcpt =
     \<lparr>msg_from = ''sender@elsewhere.org'', msg_to = rcpt, msg_rawSize = 1024,
      msg_message_id = Some ''<1@elsewhere.org>'', msg_forward = forward_ok\<rparr>"

definition bounce_message :: "string \<Rightarrow> message" where
  "bounce_message rcpt = (example_message rcpt)\<lparr>msg_forward := forward_fails\<rparr>"

definition spec_aliases :: "alias_row list" where
  "spec_aliases = [mk_alias ''hello@example.com'' ''you@inbox.example.net'' 1]"

definition no_plus_aliases :: "alias_row list" where
  "no_plus_aliases = [mk_alias ''hello@example.com'' ''you@inbox.example.net'' 0]"

definition both_aliases :: "alias_row list" where
  "both_aliases = [mk_alias ''hello@example.com'' ''base@inbox.example.net'' 1,
                   mk_alias ''hello+promo@example.com'' ''promo@inbox.example.net'' 1]"

definition loop_aliases :: "alias_row list" where
  "loop_aliases = [mk_alias ''a@example.com'' ''b@example.com'' 1]"

definition tagged_alias_only :: "alias_row list" where
  "tagged_alias_only = [mk_alias ''user+a@example.com'' ''dest@inbox.example.net'' 1]"

definition failing_log_env :: env where
  "failing_log_env = (example_env spec_aliases)\<lparr>DB_run := insert_fails\<rparr>"

definition unset_env :: env where
  "unset_env = (example_env [])\<lparr>DOMAIN := None\<rparr>"

definition blank_env :: env where
  "blank_env = (example_env [])\<lparr>DOMAIN := Some ''   ''\<rparr>"

section \<open>Facts about the string operations\<close>

lemma is_space_lower: "is_space (to_lower_char c) = is_space c"
  by (auto simp: is_space_def to_lower_char_def Let_def)

lemma to_lower_char_idem: "to_lower_char (to_lower_char c) = to_lower_char c"
  by (auto simp: to_lower_char_def Let_def)

lemma trim_toLowerCase: "trim (toLowerCase s) = toLowerCase (trim s)"
  by (simp add: trim_def toLowerCase_def dropWhile_map rev_map comp_def is_space_lower)

lemma dropWhile_snoc_keeps: "\<not> P y \<Longrightarrow> \<exists>zs. dropWhile P (xs @ [y]) = zs @ [y]"
  by (simp add: dropWhile_append)

lemma dropWhile_fixed: "xs = [] \<or> \<not> P (hd xs) \<Longrightarrow> dropWhile P xs = xs"
  by (cases xs) auto

lemma dropWhile_head: "dropWhile P xs = [] \<or> \<not> P (hd (dropWhile P xs))"
  using hd_dropWhile by blast

lemma trim_end_head:
  assumes "ys = [] \<or> \<not> P (hd ys)"
  shows "rev (dropWhile P (rev ys)) = [] \<or> \<not> P (hd (rev (dropWhile P (rev ys))))"
proof (cases ys)
  case Nil
  then show ?thesis by simp
next
  case (Cons y ys')
  with assms have ny: "\<not> P y" by simp
  from dropWhile_snoc_keeps [of P y "rev ys'"] ny obtain zs
    where "dropWhile P (rev ys' @ [y]) = zs @ [y]" by blast
  with Cons ny show ?thesis by simp
qed

lemma trim_idem: "trim (trim s) = trim s"
proof -
  let ?ys = "dropWhile is_space s"
  let ?zs = "rev (dropWhile is_space (rev ?ys))"
  have h1: "?zs = [] \<or> \<not> is_space (hd ?zs)"
    by (rule trim_end_head) (rule dropWhile_head)
  have f1: "dropWhile is_space ?zs = ?zs"
    by (rule dropWhile_fixed) (rule h1)
  have h2: "rev ?zs = [] \<or> \<not> is_space (hd (rev ?zs))"
    using dropWhile_head [of is_space "rev ?ys"] by simp
  have f2: "dropWhile is_space (rev ?zs) = rev ?zs"
    by (rule dropWhile_fixed) (rule h2)
  show ?thesis
    unfolding trim_def f1 f2 by simp
qed

lemma norm_idem: "norm (norm s) = norm s"
  unfolding norm_def trim_toLowerCase trim_idem by (simp add: toLowerCase_def to_lower_char_idem)

lemma indexOf_takeWhile:
  "indexOf s c = (if c \<in> set s then int (length (takeWhile (\<lambda>x. x \<noteq> c) s)) else -1)"
  by (induction s) (auto simp: Let_def)

lemma indexOf_at: "c \<notin> set ys \<Longrightarrow> indexOf (ys @ c # zs) c = int (length ys)"
  by (induction ys) (auto simp: Let_def)

lemma lastIndexOf_absent: "c \<notin> set s \<Longrightarrow> lastIndexOf s c = -1"
  by (simp add: lastIndexOf_def indexOf_takeWhile)

lemma lastIndexOf_at: "c \<notin> set zs \<Longrightarrow> lastIndexOf (ys @ c # zs) c = int (length ys)"
  using indexOf_at [of c "rev zs" "rev ys"] by (simp add: lastIndexOf_def)

lemma lastIndexOf_head: "c \<notin> set d \<Longrightarrow> lastIndexOf (c # d) c = 0"
  using lastIndexOf_at [of c d "[]"] by simp

lemma slice_take: "0 \<le> i \<Longrightarrow> slice s 0 i = take (nat i) s"
  by (auto simp: slice_def clamp_index_def Let_def min_def)

lemma slice_from_drop: "0 \<le> i \<Longrightarrow> slice_from s i = drop (nat i) s"
  by (auto simp: slice_from_def slice_def clamp_index_def Let_def min_def)

lemma splitAddress_invalid:
  "CHR ''@'' \<notin> set (norm x) \<or> (\<exists>d. norm x = CHR ''@'' # d \<and> CHR ''@'' \<notin> set d) \<Longrightarrow>
   splitAddress x = \<lparr>local_part = [], domain_part = [], full = norm x\<rparr>"
  by (auto simp: splitAddress_def Let_def lastIndexOf_absent lastIndexOf_head)

lemma splitAddress_valid:
  assumes "norm x = l @ CHR ''@'' # d" and "l \<noteq> []" and "CHR ''@'' \<notin> set d"
  shows "splitAddress x = \<lparr>local_part = l, domain_part = d, full = norm x\<rparr>"
proof -
  have at: "lastIndexOf (norm x) (CHR ''@'') = int (length l)"
    using assms lastIndexOf_at [of "CHR ''@''" d l] by simp
  with assms(2) have "\<not> lastIndexOf (norm x) (CHR ''@'') < 1" by (cases l) auto
  moreover have "nat (int (length l) + 1) = Suc (length l)" by simp
  ultimately show ?thesis
    using at assms(1) by (simp add: splitAddress_def Let_def slice_take slice_from_drop)
qed

section \<open>The address normalizer\<close>

text \<open>
  Claim C9. \<open>splitAddress\<close> (the spec's \<open>normalize\<close>) is idempotent: splitting the \<open>full\<close>
  field of a result gives the same result. \<open>full\<close> is the input trimmed and lower-cased.
  When the normalized input has no \<open>@\<close>, or only a leading one (an empty local part),
  \<open>local\<close> and \<open>domain\<close> are empty and \<open>full\<close> is kept; otherwise \<open>local\<close> is the text
  before the last \<open>@\<close> and \<open>domain\<close> the text after it.
\<close>

theorem splitAddress_idempotent:
  "splitAddress (full (splitAddress x)) = splitAddress x
   \<and> full (splitAddress x) = toLowerCase (trim x)
   \<and> (CHR ''@'' \<notin> set (norm x) \<or> (\<exists>d. norm x = CHR ''@'' # d \<and> CHR ''@'' \<notin> set d) \<longrightarrow>
        local_part (splitAddress x) = [] \<and> domain_part (splitAddress x) = [])
   \<and> (norm x = l @ CHR ''@'' # d \<and> l \<noteq> [] \<and> CHR ''@'' \<notin> set d \<longrightarrow>
        local_part (splitAddress x) = l \<and> domain_part (splitAddress x) = d)"
proof -
  have f: "full (splitAddress x) = norm x"
    by (simp add: splitAddress_def Let_def)
  have "splitAddress (norm x) = splitAddress x"
    by (simp add: splitAddress_def norm_idem)
  with f show ?thesis
    by (auto simp: norm_def [symmetric] splitAddress_invalid splitAddress_valid)
qed

theorem splitAddress_idempotent_witness:
  "CHR ''@'' \<notin> set (norm '' No At.Sign '')
   \<and> local_part (splitAddress '' No At.Sign '') = []
   \<and> domain_part (splitAddress '' No At.Sign '') = []
   \<and> full (splitAddress '' No At.Sign '') = ''no at.sign''
   \<and> norm '' Hello+Tag@Example.COM'' = ''hello+tag'' @ CHR ''@'' # ''example.com''
   \<and> local_part (splitAddress '' Hello+Tag@Example.COM'') = ''hello+tag''
   \<and> domain_part (splitAddress '' Hello+Tag@Example.COM'') = ''example.com''
   \<and> splitAddress (full (splitAddress '' Hello+Tag@Example.COM'')) = splitAddress '' Hello+Tag@Example.COM''"
proof -
  note n = splitAddress_idempotent [of "'' No At.Sign ''" "[]" "[]"]
  note v = splitAddress_idempotent [of "'' Hello+Tag@Example.COM''" "''hello+tag''" "''example.com''"]
  have a: "CHR ''@'' \<notin> set (norm '' No At.Sign '')" by code_simp
  have b: "toLowerCase (trim '' No At.Sign '') = ''no at.sign''" by code_simp
  have c: "norm '' Hello+Tag@Example.COM'' = ''hello+tag'' @ CHR ''@'' # ''example.com''"
    by code_simp
  have d: "''hello+tag'' \<noteq> [] \<and> CHR ''@'' \<notin> set ''example.com''" by simp
  from n a have n1: "local_part (splitAddress '' No At.Sign '') = []
      \<and> domain_part (splitAddress '' No At.Sign '') = []" by blast
  from n have n2: "full (splitAddress '' No At.Sign '') = toLowerCase (trim '' No At.Sign '')"
    by blast
  from v c d have v1: "local_part (splitAddress '' Hello+Tag@Example.COM'') = ''hello+tag''
      \<and> domain_part (splitAddress '' Hello+Tag@Example.COM'') = ''example.com''" by blast
  from v have v2: "splitAddress (full (splitAddress '' Hello+Tag@Example.COM''))
      = splitAddress '' Hello+Tag@Example.COM''" by (rule conjunct1)
  from a n1 n2 b c v1 v2 show ?thesis by (intro conjI) simp_all
qed


section \<open>How the handler runs\<close>

lemma persistLog_run: "persistLog e entry t = (Inr (), t @ [Insert (bound_row e entry)])"
  by (simp add: persistLog_def try_catch_def run_insert_def return_io_def split: option.split)

lemma log_reject_run:
  "block [logEvent en, persistLog e en, setReject r] t
     = (Inr (), t @ [Console en, Insert (bound_row e en), SetReject r])"
  by (simp add: bind_io_def return_io_def logEvent_def persistLog_run setReject_def)

lemma forward_block_run:
  "try_catch (block [forward m d, logEvent en, persistLog e en]) h t
     = (case msg_forward m d of
          None \<Rightarrow> (Inr (), t @ [Forward d, Console en, Insert (bound_row e en)])
        | Some err \<Rightarrow> h err (t @ [Forward d]))"
  by (simp add: try_catch_def bind_io_def return_io_def forward_def logEvent_def persistLog_run
      split: option.split)

lemma email_invalid_run:
  "\<exists>en. entry_route en = ''invalid-domain'' \<and>
     email_invalid m e t
       = (Inr (), t @ [Console en, Insert (bound_row e en),
                       SetReject ''550 Invalid recipient for this domain''])"
  unfolding email_invalid_def Let_def log_reject_run by (intro exI conjI, rule_tac [2] refl) simp

lemma getDomain_nonempty: "getDomain e \<noteq> []"
  by (simp add: getDomain_def Let_def split: option.split)

lemma email_none_run:
  "\<exists>en. entry_route en = ''none'' \<and>
     email_none m e t
       = (Inr (), t @ [Console en, Insert (bound_row e en),
                       SetReject (''550 No such user at '' @ getDomain e)])"
  unfolding email_none_def Let_def log_reject_run by (simp add: getDomain_nonempty)

lemma email_exact_run:
  "\<exists>en. entry_route en = ''exact'' \<and> entry_dest en = Some (forward_to row) \<and>
     email_exact m e row t
       = (Inr (), t @ (if wouldLoop (forward_to row) e
                       then [Console en, Insert (bound_row e en), SetReject ''550 Routing loop detected'']
                       else if msg_forward m (forward_to row) = None
                       then [Forward (forward_to row), Console en, Insert (bound_row e en)]
                       else [Forward (forward_to row), Console en, Insert (bound_row e en),
                             SetReject ''550 Destination not verified'']))"
proof (cases "wouldLoop (forward_to row) e")
  case True
  then show ?thesis
    unfolding email_exact_def Let_def log_reject_run by simp
next
  case False
  then show ?thesis
    unfolding email_exact_def Let_def log_reject_run forward_block_run
    by (cases "msg_forward m (forward_to row)") simp_all
qed

lemma email_plus_run:
  "\<exists>en. entry_route en = ''base+tag'' \<and> entry_base en = Some base
       \<and> entry_dest en = Some (forward_to row) \<and>
     email_plus m e base row t
       = (Inr (), t @ (if wouldLoop (forward_to row) e
                       then [Console en, Insert (bound_row e en), SetReject ''550 Routing loop detected'']
                       else if msg_forward m (forward_to row) = None
                       then [Forward (forward_to row), Console en, Insert (bound_row e en)]
                       else [Forward (forward_to row), Console en, Insert (bound_row e en),
                             SetReject ''550 Destination not verified'']))"
proof (cases "wouldLoop (forward_to row) e")
  case True
  then show ?thesis
    unfolding email_plus_def Let_def log_reject_run by simp
next
  case False
  then show ?thesis
    unfolding email_plus_def Let_def log_reject_run forward_block_run
    by (cases "msg_forward m (forward_to row)") simp_all
qed

lemma email_catch_run:
  "\<exists>en. entry_route en = ''exception'' \<and>
     email_catch m e err t
       = (Inr (), t @ [Console en, Insert (bound_row e en), SetReject ''550 Internal error''])"
  unfolding email_catch_def Let_def log_reject_run by simp

lemma row_route_bound: "row_route (bound_row e en) = or_null (Some (entry_route en))"
  by (simp add: bound_row_def)

lemma try_catch_through: "fst (m t) = Inr x \<Longrightarrow> try_catch m h t = m t"
  by (cases "m t") (auto simp: try_catch_def)

lemma try_catch_bind:
  "try_catch (bind_io m f) h t
     = (case m t of (Inl err, t') \<Rightarrow> h err t' | (Inr x, t') \<Rightarrow> try_catch (f x) h t')"
  by (simp add: try_catch_def bind_io_def split: prod.split sum.split)

lemma email_invalid_fst: "fst (email_invalid m e t) = Inr ()"
  using email_invalid_run [of m e t] by auto

lemma email_exact_fst: "fst (email_exact m e row t) = Inr ()"
  using email_exact_run [of row m e t] by auto

lemma email_plus_fst: "fst (email_plus m e base row t) = Inr ()"
  using email_plus_run [of base row m e t] by auto

lemma email_none_fst: "fst (email_none m e t) = Inr ()"
  using email_none_run [of m e t] by auto

lemma email_catch_fst: "fst (email_catch m e err t) = Inr ()"
  using email_catch_run [of m e err t] by auto

lemmas branch_fst = email_invalid_fst email_exact_fst email_plus_fst email_none_fst email_catch_fst

lemma email_case_invalid:
  "local_part (splitAddress (msg_to m)) = [] \<or> domain_part (splitAddress (msg_to m)) \<noteq> getDomain e
   \<Longrightarrow> email m e t = email_invalid m e t"
  by (auto simp: email_def email_try_def Let_def try_catch_through email_invalid_fst)

lemma email_case_lookup:
  assumes "local_part (splitAddress (msg_to m)) \<noteq> []"
    and "domain_part (splitAddress (msg_to m)) = getDomain e"
  shows "email m e t =
    (case DB_first e (full (splitAddress (msg_to m))) of
       Inl err \<Rightarrow> email_catch m e err (t @ [Lookup (full (splitAddress (msg_to m)))])
     | Inr (Some row) \<Rightarrow> email_exact m e row (t @ [Lookup (full (splitAddress (msg_to m)))])
     | Inr None \<Rightarrow>
         (let l = local_part (splitAddress (msg_to m));
              base = slice l 0 (indexOf l (CHR ''+'')) @ ''@'' @ domain_part (splitAddress (msg_to m));
              t1 = t @ [Lookup (full (splitAddress (msg_to m)))]
          in if indexOf l (CHR ''+'') > -1 then
               (case DB_first e base of
                  Inl err \<Rightarrow> email_catch m e err (t1 @ [Lookup base])
                | Inr (Some row) \<Rightarrow>
                    if allow_plus row = 1 then email_plus m e base row (t1 @ [Lookup base])
                    else email_none m e (t1 @ [Lookup base])
                | Inr None \<Rightarrow> email_none m e (t1 @ [Lookup base]))
             else email_none m e t1))"
  using assms
  by (simp add: email_def email_try_def Let_def try_catch_bind first_row_def
      try_catch_through branch_fst split: sum.split option.split)

lemma forwards_append: "forwards (t @ u) = forwards t @ forwards u"
  by (induction t rule: forwards.induct) simp_all

lemma inserts_append: "inserts (t @ u) = inserts t @ inserts u"
  by (induction t rule: inserts.induct) simp_all

lemma rejects_append: "rejects (t @ u) = rejects t @ rejects u"
  by (induction t rule: rejects.induct) simp_all

lemma lookups_append: "lookups (t @ u) = lookups t @ lookups u"
  by (induction t rule: lookups.induct) simp_all

lemmas trace_append = forwards_append inserts_append rejects_append lookups_append

lemma settled_invalid: "quiet t \<Longrightarrow> settled m e (email_invalid m e t)"
  using email_invalid_run [of m e t]
  by (auto simp: settled_def quiet_def trace_append delivered_def reject_reasons_def)

lemma settled_none: "quiet t \<Longrightarrow> settled m e (email_none m e t)"
  using email_none_run [of m e t]
  by (auto simp: settled_def quiet_def trace_append delivered_def reject_reasons_def)

lemma settled_catch: "quiet t \<Longrightarrow> settled m e (email_catch m e err t)"
  using email_catch_run [of m e err t]
  by (auto simp: settled_def quiet_def trace_append delivered_def reject_reasons_def)

lemma settled_exact: "quiet t \<Longrightarrow> settled m e (email_exact m e row t)"
  using email_exact_run [of row m e t]
  by (auto simp: settled_def quiet_def trace_append delivered_def reject_reasons_def
      split: if_splits)

lemma settled_plus: "quiet t \<Longrightarrow> settled m e (email_plus m e base row t)"
  using email_plus_run [of base row m e t]
  by (auto simp: settled_def quiet_def trace_append delivered_def reject_reasons_def
      split: if_splits)

lemmas settled_branch = settled_invalid settled_none settled_catch settled_exact settled_plus

lemma email_settled: "settled m e (email m e [])"
proof (cases "local_part (splitAddress (msg_to m)) = []
        \<or> domain_part (splitAddress (msg_to m)) \<noteq> getDomain e")
  case True
  then show ?thesis
    by (simp add: email_case_invalid settled_invalid quiet_def)
next
  case False
  then show ?thesis
    by (simp add: email_case_lookup Let_def settled_branch quiet_def
        split: sum.split option.split)
qed

lemma persistLog_cong:
  "now_ms e' = now_ms e \<Longrightarrow> persistLog e' en = persistLog e en"
  by (rule ext) (simp add: persistLog_run bound_row_def)

lemma first_row_cong: "DB_first e' = DB_first e \<Longrightarrow> first_row e' = first_row e"
  by (intro ext) (simp add: first_row_def)

lemma email_env_cong:
  assumes "getDomain e' = getDomain e" and "DB_first e' = DB_first e"
    and "now_ms e' = now_ms e" and "randomUUID e' = randomUUID e"
  shows "email m e' = email m e"
proof -
  have meta: "msgMeta m e' = msgMeta m e"
    using assms by (simp add: msgMeta_def split: option.split)
  have loop: "\<And>a. wouldLoop a e' = wouldLoop a e"
    using assms by (simp add: wouldLoop_def isOurDomain_def)
  note pl = persistLog_cong [OF assms(3)]
  note fr = first_row_cong [OF assms(2)]
  have inv: "email_invalid m e' = email_invalid m e"
    by (simp add: email_invalid_def meta pl assms(1))
  have non: "email_none m e' = email_none m e"
    by (simp add: email_none_def meta pl assms(1))
  have cat: "email_catch m e' = email_catch m e"
    by (rule ext) (simp add: email_catch_def meta pl)
  have exa: "email_exact m e' = email_exact m e"
    by (rule ext) (simp add: email_exact_def meta pl loop)
  have plu: "email_plus m e' = email_plus m e"
    by (intro ext) (simp add: email_plus_def meta pl loop)
  have "email_try m e' = email_try m e"
    unfolding email_try_def inv non exa plu fr assms(1) by (rule refl)
  then show ?thesis
    by (simp add: email_def cat)
qed

lemma lookups_invalid: "lookups (snd (email_invalid m e t)) = lookups t"
  using email_invalid_run [of m e t] by (auto simp: lookups_append)

lemma lookups_none: "lookups (snd (email_none m e t)) = lookups t"
  using email_none_run [of m e t] by (auto simp: lookups_append)

lemma lookups_catch: "lookups (snd (email_catch m e err t)) = lookups t"
  using email_catch_run [of m e err t] by (auto simp: lookups_append)

lemma lookups_exact: "lookups (snd (email_exact m e row t)) = lookups t"
  using email_exact_run [of row m e t] by (auto simp: lookups_append split: if_splits)

lemma lookups_plus: "lookups (snd (email_plus m e base row t)) = lookups t"
  using email_plus_run [of base row m e t] by (auto simp: lookups_append split: if_splits)

lemmas branch_lookups = lookups_invalid lookups_none lookups_catch lookups_exact lookups_plus

lemma plus_found_run:
  assumes "local_part (splitAddress (msg_to m)) \<noteq> []"
    and "domain_part (splitAddress (msg_to m)) = getDomain e"
    and "DB_first e (full (splitAddress (msg_to m))) = Inr None"
    and "indexOf (local_part (splitAddress (msg_to m))) (CHR ''+'') > -1"
    and "DB_first e (plus_base (splitAddress (msg_to m))) = Inr (Some row)"
    and "allow_plus row = 1"
  shows "map row_route (inserts (snd (email m e []))) = [Some ''base+tag'']
    \<and> forwards (snd (email m e []))
        = (if wouldLoop (forward_to row) e then [] else [forward_to row])"
proof -
  let ?k = "full (splitAddress (msg_to m))"
  let ?b = "plus_base (splitAddress (msg_to m))"
  from assms have "email m e [] = email_plus m e ?b row [Lookup ?k, Lookup ?b]"
    by (simp add: email_case_lookup Let_def)
  moreover obtain en where "entry_route en = ''base+tag''"
    and "email_plus m e ?b row [Lookup ?k, Lookup ?b]
       = (Inr (), [Lookup ?k, Lookup ?b] @ (if wouldLoop (forward_to row) e
                       then [Console en, Insert (bound_row e en), SetReject ''550 Routing loop detected'']
                       else if msg_forward m (forward_to row) = None
                       then [Forward (forward_to row), Console en, Insert (bound_row e en)]
                       else [Forward (forward_to row), Console en, Insert (bound_row e en),
                             SetReject ''550 Destination not verified'']))"
    using email_plus_run [of ?b row m e "[Lookup ?k, Lookup ?b]"] by blast
  ultimately show ?thesis
    by (simp add: row_route_bound or_null_def)
qed

lemma plus_missing_run:
  assumes "local_part (splitAddress (msg_to m)) \<noteq> []"
    and "domain_part (splitAddress (msg_to m)) = getDomain e"
    and "DB_first e (full (splitAddress (msg_to m))) = Inr None"
    and "indexOf (local_part (splitAddress (msg_to m))) (CHR ''+'') > -1"
    and "DB_first e (plus_base (splitAddress (msg_to m))) = Inr found"
    and "found = None \<or> (\<exists>row. found = Some row \<and> allow_plus row \<noteq> 1)"
  shows "map row_route (inserts (snd (email m e []))) = [Some ''none'']
    \<and> forwards (snd (email m e [])) = []
    \<and> rejects (snd (email m e [])) = [''550 No such user at '' @ getDomain e]"
proof -
  let ?k = "full (splitAddress (msg_to m))"
  let ?b = "plus_base (splitAddress (msg_to m))"
  from assms have "email m e [] = email_none m e [Lookup ?k, Lookup ?b]"
    by (auto simp: email_case_lookup Let_def)
  moreover obtain en where "entry_route en = ''none''"
    and "email_none m e [Lookup ?k, Lookup ?b]
       = (Inr (), [Lookup ?k, Lookup ?b] @ [Console en, Insert (bound_row e en),
                       SetReject (''550 No such user at '' @ getDomain e)])"
    using email_none_run [of m e "[Lookup ?k, Lookup ?b]"] by blast
  ultimately show ?thesis
    by (simp add: row_route_bound or_null_def)
qed

section \<open>The decision pipeline: resolution\<close>

text \<open>
  Claim C6. A recipient whose normalized domain differs from the worker's domain is
  rejected as an invalid recipient, and the handler makes no lookup in the alias table
  (and no forward) for that message.
\<close>

theorem invalid_domain_no_lookup:
  assumes "domain_part (splitAddress (msg_to m)) \<noteq> getDomain e"
  shows "fst (email m e []) = Inr ()
    \<and> lookups (snd (email m e [])) = []
    \<and> forwards (snd (email m e [])) = []
    \<and> rejects (snd (email m e [])) = [''550 Invalid recipient for this domain'']
    \<and> map row_route (inserts (snd (email m e []))) = [Some ''invalid-domain'']"
proof -
  from assms have "email m e [] = email_invalid m e []"
    by (simp add: email_case_invalid)
  moreover obtain en where "entry_route en = ''invalid-domain''"
    and "email_invalid m e [] = (Inr (), [] @ [Console en, Insert (bound_row e en),
                       SetReject ''550 Invalid recipient for this domain''])"
    using email_invalid_run [of m e "[]"] by blast
  ultimately show ?thesis
    by (simp add: row_route_bound or_null_def)
qed

theorem invalid_domain_no_lookup_witness:
  "domain_part (splitAddress (msg_to (example_message ''x@other.com''))) \<noteq> getDomain (example_env [])
   \<and> lookups (snd (email (example_message ''x@other.com'') (example_env []) [])) = []
   \<and> rejects (snd (email (example_message ''x@other.com'') (example_env []) []))
        = [''550 Invalid recipient for this domain'']"
proof -
  have h: "domain_part (splitAddress (msg_to (example_message ''x@other.com''))) \<noteq> getDomain (example_env [])"
    by code_simp
  from invalid_domain_no_lookup [OF h] h show ?thesis by simp
qed

text \<open>
  Claim C5. When the exact lookup of the recipient returns a row, that row decides the
  routing: the lookup of the full address is the only lookup made (the plus-tag base is
  never looked up, whatever the table holds for it), the log row has route \<open>exact\<close>, and
  the only destination ever forwarded to is the exact row's \<open>forward_to\<close>.
\<close>

theorem exact_match_precedence:
  assumes "local_part (splitAddress (msg_to m)) \<noteq> []"
    and "domain_part (splitAddress (msg_to m)) = getDomain e"
    and "DB_first e (full (splitAddress (msg_to m))) = Inr (Some row)"
  shows "lookups (snd (email m e [])) = [full (splitAddress (msg_to m))]
    \<and> forwards (snd (email m e []))
        = (if wouldLoop (forward_to row) e then [] else [forward_to row])
    \<and> map row_route (inserts (snd (email m e []))) = [Some ''exact'']"
proof -
  let ?k = "full (splitAddress (msg_to m))"
  from assms have "email m e [] = email_exact m e row [Lookup ?k]"
    by (simp add: email_case_lookup)
  moreover obtain en where "entry_route en = ''exact''"
    and "email_exact m e row [Lookup ?k]
       = (Inr (), [Lookup ?k] @ (if wouldLoop (forward_to row) e
                       then [Console en, Insert (bound_row e en), SetReject ''550 Routing loop detected'']
                       else if msg_forward m (forward_to row) = None
                       then [Forward (forward_to row), Console en, Insert (bound_row e en)]
                       else [Forward (forward_to row), Console en, Insert (bound_row e en),
                             SetReject ''550 Destination not verified'']))"
    using email_exact_run [of row m e "[Lookup ?k]"] by blast
  ultimately show ?thesis
    by (simp add: row_route_bound or_null_def)
qed

theorem exact_match_precedence_witness:
  "local_part (splitAddress (msg_to (example_message ''hello+promo@example.com''))) \<noteq> []
   \<and> domain_part (splitAddress (msg_to (example_message ''hello+promo@example.com'')))
       = getDomain (example_env both_aliases)
   \<and> DB_first (example_env both_aliases) ''hello+promo@example.com''
       = Inr (Some (mk_alias ''hello+promo@example.com'' ''promo@inbox.example.net'' 1))
   \<and> DB_first (example_env both_aliases) ''hello@example.com''
       = Inr (Some (mk_alias ''hello@example.com'' ''base@inbox.example.net'' 1))
   \<and> lookups (snd (email (example_message ''hello+promo@example.com'') (example_env both_aliases) []))
       = [''hello+promo@example.com'']
   \<and> forwards (snd (email (example_message ''hello+promo@example.com'') (example_env both_aliases) []))
       = [''promo@inbox.example.net'']"
proof -
  let ?m = "example_message ''hello+promo@example.com''"
  let ?e = "example_env both_aliases"
  let ?row = "mk_alias ''hello+promo@example.com'' ''promo@inbox.example.net'' 1"
  have s: "splitAddress (msg_to ?m) = \<lparr>local_part = ''hello+promo'', domain_part = ''example.com'',
      full = ''hello+promo@example.com''\<rparr>" by code_simp
  have g: "getDomain ?e = ''example.com''" by code_simp
  have h1: "local_part (splitAddress (msg_to ?m)) \<noteq> []" by (simp add: s)
  have h2: "domain_part (splitAddress (msg_to ?m)) = getDomain ?e" by (simp add: s g)
  have h3: "DB_first ?e (full (splitAddress (msg_to ?m))) = Inr (Some ?row)"
    unfolding s by code_simp
  have h4: "DB_first ?e ''hello@example.com''
       = Inr (Some (mk_alias ''hello@example.com'' ''base@inbox.example.net'' 1))" by code_simp
  have w: "\<not> wouldLoop (forward_to ?row) ?e" by code_simp
  have f: "forward_to ?row = ''promo@inbox.example.net''" by (simp add: mk_alias_def)
  from exact_match_precedence [OF h1 h2 h3] h1 h2 h3 h4 w f s show ?thesis by simp
qed

text \<open>
  Claim C2, as the handler has it. When the exact lookup finds nothing and the local part
  holds a \<open>+\<close>, the base address looked up is the text before the first \<open>+\<close> of the
  local part, then \<open>@\<close> and the domain: \<open>indexOf\<close> gives the index of the first
  \<open>+\<close>, so for \<open>user+a+b\<close> the base local part is \<open>user\<close>.
\<close>

theorem plus_base_first_plus:
  assumes "local_part (splitAddress (msg_to m)) = base @ CHR ''+'' # tag"
    and "CHR ''+'' \<notin> set base"
    and "domain_part (splitAddress (msg_to m)) = getDomain e"
    and "DB_first e (full (splitAddress (msg_to m))) = Inr None"
  shows "indexOf (local_part (splitAddress (msg_to m))) (CHR ''+'') = int (length base)
    \<and> plus_base (splitAddress (msg_to m)) = base @ ''@'' @ domain_part (splitAddress (msg_to m))
    \<and> lookups (snd (email m e []))
        = [full (splitAddress (msg_to m)), base @ ''@'' @ domain_part (splitAddress (msg_to m))]"
proof -
  let ?l = "local_part (splitAddress (msg_to m))"
  have i: "indexOf ?l (CHR ''+'') = int (length base)"
    using assms(1,2) indexOf_at [of "CHR ''+''" base tag] by simp
  have "slice (base @ CHR ''+'' # tag) 0 (int (length base)) = base"
    by (simp add: slice_take)
  then have b: "slice ?l 0 (indexOf ?l (CHR ''+'')) = base"
    unfolding assms(1) indexOf_at [OF assms(2)] .
  have ne: "?l \<noteq> []" using assms(1) by simp
  have "lookups (snd (email m e []))
      = [full (splitAddress (msg_to m)), plus_base (splitAddress (msg_to m))]"
    using assms(4) i
    by (simp add: email_case_lookup [OF ne assms(3)] Let_def branch_lookups
        split: sum.split option.split)
  with i b show ?thesis by simp
qed

theorem plus_base_first_plus_witness:
  "local_part (splitAddress (msg_to (example_message ''user+a+b@example.com''))) = ''user'' @ CHR ''+'' # ''a+b''
   \<and> CHR ''+'' \<notin> set ''user''
   \<and> domain_part (splitAddress (msg_to (example_message ''user+a+b@example.com'')))
       = getDomain (example_env tagged_alias_only)
   \<and> DB_first (example_env tagged_alias_only)
        (full (splitAddress (msg_to (example_message ''user+a+b@example.com'')))) = Inr None
   \<and> lookups (snd (email (example_message ''user+a+b@example.com'') (example_env tagged_alias_only) []))
       = [''user+a+b@example.com'', ''user@example.com'']"
proof -
  let ?m = "example_message ''user+a+b@example.com''"
  let ?e = "example_env tagged_alias_only"
  have s: "splitAddress (msg_to ?m) = \<lparr>local_part = ''user+a+b'', domain_part = ''example.com'',
      full = ''user+a+b@example.com''\<rparr>" by code_simp
  have g: "getDomain ?e = ''example.com''" by code_simp
  have h1: "local_part (splitAddress (msg_to ?m)) = ''user'' @ CHR ''+'' # ''a+b''" by (simp add: s)
  have h2: "CHR ''+'' \<notin> set ''user''" by simp
  have h3: "domain_part (splitAddress (msg_to ?m)) = getDomain ?e" by (simp add: s g)
  have h4: "DB_first ?e (full (splitAddress (msg_to ?m))) = Inr None"
    unfolding s by code_simp
  from plus_base_first_plus [OF h1 h2 h3 h4] h1 h2 h3 h4 s show ?thesis by simp
qed

text \<open>
  Claim C2, as stated, fails. The table holds only the alias \<open>user+a@example.com\<close>, the
  text before the last \<open>+\<close> of \<open>user+a+b\<close>. The handler looks up
  \<open>user@example.com\<close> instead, finds nothing, and rejects the message.
\<close>

theorem plus_base_last_plus_counterexample:
  "local_part (splitAddress (msg_to (example_message ''user+a+b@example.com''))) = ''user+a+b''
   \<and> slice ''user+a+b'' 0 (lastIndexOf ''user+a+b'' (CHR ''+'')) @ ''@'' @ ''example.com''
       = ''user+a@example.com''
   \<and> lookups (snd (email (example_message ''user+a+b@example.com'') (example_env tagged_alias_only) []))
       = [''user+a+b@example.com'', ''user@example.com'']
   \<and> ''user+a@example.com''
       \<notin> set (lookups (snd (email (example_message ''user+a+b@example.com'')
                                (example_env tagged_alias_only) [])))
   \<and> forwards (snd (email (example_message ''user+a+b@example.com'') (example_env tagged_alias_only) []))
       = []
   \<and> rejects (snd (email (example_message ''user+a+b@example.com'') (example_env tagged_alias_only) []))
       = [''550 No such user at example.com'']"
  by code_simp

text \<open>
  Claim C4, as the handler has it. No exact alias matches and the local part holds a
  \<open>+\<close>. The message takes the plus-tag route (log route \<open>base+tag\<close>) if and only if the
  base address is in the table with \<open>allow_plus = 1\<close>; it is forwarded if and only if,
  besides, the base alias's \<open>forward_to\<close> is outside the worker's domain and
  \<open>message.forward\<close> returns. When the base alias is missing, or is there with
  \<open>allow_plus\<close> other than 1, the message is rejected as no match.
\<close>

theorem plus_tag_resolution:
  assumes "local_part (splitAddress (msg_to m)) \<noteq> []"
    and "domain_part (splitAddress (msg_to m)) = getDomain e"
    and "DB_first e (full (splitAddress (msg_to m))) = Inr None"
    and "indexOf (local_part (splitAddress (msg_to m))) (CHR ''+'') > -1"
    and "DB_first e (plus_base (splitAddress (msg_to m))) = Inr found"
  shows "((map row_route (inserts (snd (email m e []))) = [Some ''base+tag''])
        = (\<exists>row. found = Some row \<and> allow_plus row = 1))
    \<and> ((delivered m (snd (email m e [])) \<noteq> [])
        = (\<exists>row. found = Some row \<and> allow_plus row = 1
             \<and> \<not> wouldLoop (forward_to row) e \<and> msg_forward m (forward_to row) = None))
    \<and> (found = None \<or> (\<exists>row. found = Some row \<and> allow_plus row \<noteq> 1) \<longrightarrow>
          forwards (snd (email m e [])) = []
          \<and> rejects (snd (email m e [])) = [''550 No such user at '' @ getDomain e]
          \<and> map row_route (inserts (snd (email m e []))) = [Some ''none''])"
proof -
  consider (hit) row where "found = Some row" "allow_plus row = 1"
    | (miss) "found = None \<or> (\<exists>row. found = Some row \<and> allow_plus row \<noteq> 1)"
    by (cases found) auto
  then show ?thesis
  proof cases
    case hit
    with plus_found_run [of m e row] assms
    show ?thesis by (auto simp: delivered_def)
  next
    case miss
    with plus_missing_run [OF assms miss]
    show ?thesis by (auto simp: delivered_def)
  qed
qed

theorem plus_tag_resolution_witness:
  "DB_first (example_env spec_aliases) (full (splitAddress (msg_to (example_message ''hello+promo@example.com''))))
      = Inr None
   \<and> DB_first (example_env spec_aliases) (plus_base (splitAddress (msg_to (example_message ''hello+promo@example.com''))))
      = Inr (Some (mk_alias ''hello@example.com'' ''you@inbox.example.net'' 1))
   \<and> map row_route (inserts (snd (email (example_message ''hello+promo@example.com'') (example_env spec_aliases) [])))
      = [Some ''base+tag'']
   \<and> delivered (example_message ''hello+promo@example.com'')
        (snd (email (example_message ''hello+promo@example.com'') (example_env spec_aliases) [])) \<noteq> []
   \<and> DB_first (example_env no_plus_aliases) (plus_base (splitAddress (msg_to (example_message ''hello+x@example.com''))))
      = Inr (Some (mk_alias ''hello@example.com'' ''you@inbox.example.net'' 0))
   \<and> forwards (snd (email (example_message ''hello+x@example.com'') (example_env no_plus_aliases) [])) = []
   \<and> rejects (snd (email (example_message ''hello+x@example.com'') (example_env no_plus_aliases) []))
      = [''550 No such user at example.com'']"
proof -
  let ?m = "example_message ''hello+promo@example.com''"
  let ?e = "example_env spec_aliases"
  let ?row = "mk_alias ''hello@example.com'' ''you@inbox.example.net'' 1"
  let ?x = "example_message ''hello+x@example.com''"
  let ?n = "example_env no_plus_aliases"
  let ?off = "mk_alias ''hello@example.com'' ''you@inbox.example.net'' 0"
  have sm: "splitAddress (msg_to ?m) = \<lparr>local_part = ''hello+promo'',
      domain_part = ''example.com'', full = ''hello+promo@example.com''\<rparr>" by code_simp
  have sx: "splitAddress (msg_to ?x) = \<lparr>local_part = ''hello+x'',
      domain_part = ''example.com'', full = ''hello+x@example.com''\<rparr>" by code_simp
  have ge: "getDomain ?e = ''example.com''" by code_simp
  have gn: "getDomain ?n = ''example.com''" by code_simp
  have m1: "local_part (splitAddress (msg_to ?m)) \<noteq> []" by (simp add: sm)
  have m2: "domain_part (splitAddress (msg_to ?m)) = getDomain ?e" by (simp add: sm ge)
  have m3: "DB_first ?e (full (splitAddress (msg_to ?m))) = Inr None"
    unfolding sm by code_simp
  have m4: "indexOf (local_part (splitAddress (msg_to ?m))) (CHR ''+'') > -1"
    unfolding sm by code_simp
  have m5: "DB_first ?e (plus_base (splitAddress (msg_to ?m))) = Inr (Some ?row)"
    unfolding sm by code_simp
  have m6: "allow_plus ?row = 1 \<and> \<not> wouldLoop (forward_to ?row) ?e
      \<and> msg_forward ?m (forward_to ?row) = None" by code_simp
  have x1: "local_part (splitAddress (msg_to ?x)) \<noteq> []" by (simp add: sx)
  have x2: "domain_part (splitAddress (msg_to ?x)) = getDomain ?n" by (simp add: sx gn)
  have x3: "DB_first ?n (full (splitAddress (msg_to ?x))) = Inr None"
    unfolding sx by code_simp
  have x4: "indexOf (local_part (splitAddress (msg_to ?x))) (CHR ''+'') > -1"
    unfolding sx by code_simp
  have x5: "DB_first ?n (plus_base (splitAddress (msg_to ?x))) = Inr (Some ?off)"
    unfolding sx by code_simp
  have x6: "allow_plus ?off \<noteq> 1" by (simp add: mk_alias_def)
  note wm = plus_tag_resolution [OF m1 m2 m3 m4 m5]
  note wx = plus_tag_resolution [OF x1 x2 x3 x4 x5]
  from wm m6 have a: "map row_route (inserts (snd (email ?m ?e []))) = [Some ''base+tag'']
      \<and> delivered ?m (snd (email ?m ?e [])) \<noteq> []" by blast
  from wx x6 have b: "forwards (snd (email ?x ?n [])) = []
      \<and> rejects (snd (email ?x ?n [])) = [''550 No such user at '' @ getDomain ?n]" by blast
  from a b m3 m5 x5 gn show ?thesis by simp
qed

text \<open>
  Claim C4, as stated, fails. The table holds \<open>a@example.com\<close> with \<open>allow_plus = 1\<close>,
  forwarding into the worker's own domain. For \<open>a+x@example.com\<close> no exact alias
  matches, the base alias exists and allows plus tags, and yet the message is not
  forwarded: the loop guard rejects it.
\<close>

theorem plus_tag_forward_counterexample:
  "DB_first (example_env loop_aliases) ''a+x@example.com'' = Inr None
   \<and> DB_first (example_env loop_aliases) ''a@example.com''
       = Inr (Some (mk_alias ''a@example.com'' ''b@example.com'' 1))
   \<and> allow_plus (mk_alias ''a@example.com'' ''b@example.com'' 1) = 1
   \<and> lookups (snd (email (example_message ''a+x@example.com'') (example_env loop_aliases) []))
       = [''a+x@example.com'', ''a@example.com'']
   \<and> forwards (snd (email (example_message ''a+x@example.com'') (example_env loop_aliases) [])) = []
   \<and> rejects (snd (email (example_message ''a+x@example.com'') (example_env loop_aliases) []))
       = [''550 Routing loop detected'']"
  by code_simp

text \<open>
  Claim C1. Whenever the alias that the handler resolves, by the exact lookup or by the
  plus-tag base lookup with \<open>allow_plus = 1\<close>, has a \<open>forward_to\<close> whose normalized domain
  is the worker's domain, the message is rejected with \<open>550 Routing loop detected\<close> and
  \<open>message.forward\<close> is never called: the check comes before any delivery attempt, on
  both routes alike.
\<close>

theorem loop_guard_before_delivery:
  assumes "local_part (splitAddress (msg_to m)) \<noteq> []"
    and "domain_part (splitAddress (msg_to m)) = getDomain e"
    and "DB_first e (full (splitAddress (msg_to m))) = Inr (Some row)
         \<or> (DB_first e (full (splitAddress (msg_to m))) = Inr None
            \<and> indexOf (local_part (splitAddress (msg_to m))) (CHR ''+'') > -1
            \<and> DB_first e (plus_base (splitAddress (msg_to m))) = Inr (Some row)
            \<and> allow_plus row = 1)"
    and "domain_part (splitAddress (forward_to row)) = getDomain e"
  shows "fst (email m e []) = Inr ()
    \<and> forwards (snd (email m e [])) = []
    \<and> rejects (snd (email m e [])) = [''550 Routing loop detected'']"
proof -
  let ?k = "full (splitAddress (msg_to m))"
  let ?b = "plus_base (splitAddress (msg_to m))"
  from assms(4) have loop: "wouldLoop (forward_to row) e"
    by (simp add: wouldLoop_def isOurDomain_def)
  from assms(3) show ?thesis
  proof
    assume "DB_first e ?k = Inr (Some row)"
    with assms(1,2) have "email m e [] = email_exact m e row [Lookup ?k]"
      by (simp add: email_case_lookup)
    moreover obtain en where
      "email_exact m e row [Lookup ?k]
         = (Inr (), [Lookup ?k] @ [Console en, Insert (bound_row e en),
                                   SetReject ''550 Routing loop detected''])"
      using email_exact_run [of row m e "[Lookup ?k]"] loop by auto
    ultimately show ?thesis by simp
  next
    assume a: "DB_first e ?k = Inr None
            \<and> indexOf (local_part (splitAddress (msg_to m))) (CHR ''+'') > -1
            \<and> DB_first e ?b = Inr (Some row) \<and> allow_plus row = 1"
    with assms(1,2) have "email m e [] = email_plus m e ?b row [Lookup ?k, Lookup ?b]"
      by (simp add: email_case_lookup Let_def)
    moreover obtain en where
      "email_plus m e ?b row [Lookup ?k, Lookup ?b]
         = (Inr (), [Lookup ?k, Lookup ?b] @ [Console en, Insert (bound_row e en),
                                   SetReject ''550 Routing loop detected''])"
      using email_plus_run [of ?b row m e "[Lookup ?k, Lookup ?b]"] loop by auto
    ultimately show ?thesis by simp
  qed
qed

theorem loop_guard_before_delivery_witness:
  "DB_first (example_env loop_aliases) (full (splitAddress (msg_to (example_message ''a@example.com''))))
      = Inr (Some (mk_alias ''a@example.com'' ''b@example.com'' 1))
   \<and> domain_part (splitAddress (forward_to (mk_alias ''a@example.com'' ''b@example.com'' 1)))
      = getDomain (example_env loop_aliases)
   \<and> forwards (snd (email (example_message ''a@example.com'') (example_env loop_aliases) [])) = []
   \<and> rejects (snd (email (example_message ''a@example.com'') (example_env loop_aliases) []))
      = [''550 Routing loop detected'']
   \<and> DB_first (example_env loop_aliases) (full (splitAddress (msg_to (example_message ''a+x@example.com''))))
      = Inr None
   \<and> DB_first (example_env loop_aliases) (plus_base (splitAddress (msg_to (example_message ''a+x@example.com''))))
      = Inr (Some (mk_alias ''a@example.com'' ''b@example.com'' 1))
   \<and> forwards (snd (email (example_message ''a+x@example.com'') (example_env loop_aliases) [])) = []
   \<and> rejects (snd (email (example_message ''a+x@example.com'') (example_env loop_aliases) []))
      = [''550 Routing loop detected'']"
proof -
  let ?e = "example_env loop_aliases"
  let ?row = "mk_alias ''a@example.com'' ''b@example.com'' 1"
  let ?m = "example_message ''a@example.com''"
  let ?p = "example_message ''a+x@example.com''"
  have g: "getDomain ?e = ''example.com''" by code_simp
  have d: "domain_part (splitAddress (forward_to ?row)) = getDomain ?e" by code_simp
  have sm: "splitAddress (msg_to ?m) = \<lparr>local_part = ''a'', domain_part = ''example.com'',
      full = ''a@example.com''\<rparr>" by code_simp
  have sp: "splitAddress (msg_to ?p) = \<lparr>local_part = ''a+x'', domain_part = ''example.com'',
      full = ''a+x@example.com''\<rparr>" by code_simp
  have m1: "local_part (splitAddress (msg_to ?m)) \<noteq> []" by (simp add: sm)
  have m2: "domain_part (splitAddress (msg_to ?m)) = getDomain ?e" by (simp add: sm g)
  have m3: "DB_first ?e (full (splitAddress (msg_to ?m))) = Inr (Some ?row)"
    unfolding sm by code_simp
  have p1: "local_part (splitAddress (msg_to ?p)) \<noteq> []" by (simp add: sp)
  have p2: "domain_part (splitAddress (msg_to ?p)) = getDomain ?e" by (simp add: sp g)
  have p3: "DB_first ?e (full (splitAddress (msg_to ?p))) = Inr None"
    unfolding sp by code_simp
  have p4: "indexOf (local_part (splitAddress (msg_to ?p))) (CHR ''+'') > -1"
    unfolding sp by code_simp
  have p5: "DB_first ?e (plus_base (splitAddress (msg_to ?p))) = Inr (Some ?row)"
    unfolding sp by code_simp
  have p6: "allow_plus ?row = 1" by (simp add: mk_alias_def)
  note wm = loop_guard_before_delivery [OF m1 m2 disjI1 d, OF m3]
  have "DB_first ?e (full (splitAddress (msg_to ?p))) = Inr (Some ?row)
         \<or> (DB_first ?e (full (splitAddress (msg_to ?p))) = Inr None
            \<and> indexOf (local_part (splitAddress (msg_to ?p))) (CHR ''+'') > -1
            \<and> DB_first ?e (plus_base (splitAddress (msg_to ?p))) = Inr (Some ?row)
            \<and> allow_plus ?row = 1)"
    using p3 p4 p5 p6 by blast
  note wp = loop_guard_before_delivery [OF p1 p2 this d]
  from wm wp m3 d p3 p5 show ?thesis by blast
qed

section \<open>The decision pipeline: outcome and audit log\<close>

text \<open>
  Claim C3. Every run of the handler returns normally: no exception leaves it. It ends in
  exactly one of two ways: \<open>message.forward\<close> was called once and returned, and no
  reject was set; or no forward returned, and exactly one reject was set, whose text is
  one of the five texts of the handler, each starting with the code 550.
\<close>

theorem email_terminal_outcome:
  "fst (email m e []) = Inr ()
   \<and> ((rejects (snd (email m e [])) = []
        \<and> (\<exists>d. forwards (snd (email m e [])) = [d] \<and> msg_forward m d = None))
      \<or> (delivered m (snd (email m e [])) = []
        \<and> (\<exists>r. rejects (snd (email m e [])) = [r] \<and> r \<in> set (reject_reasons e)
                \<and> take 4 r = ''550 '')))"
  using email_settled [of m e] by (simp add: settled_def)

theorem email_terminal_outcome_witness:
  "fst (email (bounce_message ''hello@example.com'') failing_log_env []) = Inr ()
   \<and> forwards (snd (email (bounce_message ''hello@example.com'') failing_log_env []))
       = [''you@inbox.example.net'']
   \<and> rejects (snd (email (bounce_message ''hello@example.com'') failing_log_env []))
       = [''550 Destination not verified'']"
proof -
  have "forwards (snd (email (bounce_message ''hello@example.com'') failing_log_env []))
       = [''you@inbox.example.net'']
     \<and> rejects (snd (email (bounce_message ''hello@example.com'') failing_log_env []))
       = [''550 Destination not verified'']"
    by code_simp
  with email_terminal_outcome [of "bounce_message ''hello@example.com''" failing_log_env]
  show ?thesis by blast
qed

text \<open>
  Claim C7. Every run of the handler makes exactly one INSERT into the log table,
  whichever branch it takes.
\<close>

theorem one_log_row_per_message:
  "length (inserts (snd (email m e []))) = 1"
  using email_settled [of m e] by (simp add: settled_def)

theorem one_log_row_per_message_witness:
  "map row_route (inserts (snd (email (bounce_message ''hello+promo@example.com'') failing_log_env [])))
     = [Some ''base+tag'']
   \<and> length (inserts (snd (email (bounce_message ''hello+promo@example.com'') failing_log_env []))) = 1"
proof -
  have "map row_route (inserts (snd (email (bounce_message ''hello+promo@example.com'') failing_log_env [])))
     = [Some ''base+tag'']"
    by code_simp
  with one_log_row_per_message [of "bounce_message ''hello+promo@example.com''" failing_log_env]
  show ?thesis by blast
qed

text \<open>
  Claim C8. \<open>persistLog\<close> returns normally whatever the INSERT does, and a run of the
  handler whose INSERT throws is the same run, with the same result and the same calls on
  the transport, as with an INSERT that succeeds.
\<close>

theorem log_failure_is_swallowed:
  "persistLog e entry t = (Inr (), t @ [Insert (bound_row e entry)])
   \<and> email m (e\<lparr>DB_run := f\<rparr>) t = email m (e\<lparr>DB_run := insert_ok\<rparr>) t"
proof -
  have "email m (e\<lparr>DB_run := f\<rparr>) = email m (e\<lparr>DB_run := insert_ok\<rparr>)"
    by (rule email_env_cong) (simp_all add: getDomain_def)
  then show ?thesis
    by (simp add: persistLog_run)
qed

theorem log_failure_is_swallowed_witness:
  "DB_run failing_log_env = insert_fails
   \<and> email (example_message ''hello@example.com'') failing_log_env []
      = email (example_message ''hello@example.com'') (example_env spec_aliases) []
   \<and> forwards (snd (email (example_message ''hello@example.com'') failing_log_env []))
      = [''you@inbox.example.net'']
   \<and> rejects (snd (email (example_message ''hello@example.com'') failing_log_env [])) = []"
proof -
  have a: "DB_run failing_log_env = insert_fails" by (simp add: failing_log_env_def)
  have b: "(example_env spec_aliases)\<lparr>DB_run := insert_ok\<rparr> = example_env spec_aliases"
    by (simp add: example_env_def)
  have c: "forwards (snd (email (example_message ''hello@example.com'') (example_env spec_aliases) []))
      = [''you@inbox.example.net'']
    \<and> rejects (snd (email (example_message ''hello@example.com'') (example_env spec_aliases) [])) = []"
    by code_simp
  from log_failure_is_swallowed [where e = "example_env spec_aliases"
      and m = "example_message ''hello@example.com''" and f = insert_fails and t = "[]"]
  have "email (example_message ''hello@example.com'') failing_log_env []
      = email (example_message ''hello@example.com'') (example_env spec_aliases) []"
    by (simp add: failing_log_env_def b)
  with a c show ?thesis by simp
qed

section \<open>The worker domain\<close>

text \<open>
  Claim C10. When \<open>env.DOMAIN\<close> is not set, or normalizes to the empty string, the
  worker's domain is \<open>example.com\<close>: \<open>getDomain\<close> returns it, the loop guard compares
  with it, and the handler runs as it does with \<open>DOMAIN\<close> set to \<open>example.com\<close>.
\<close>

theorem getDomain_fallback:
  assumes "DOMAIN e = None \<or> (\<exists>d. DOMAIN e = Some d \<and> norm d = [])"
  shows "getDomain e = ''example.com''
    \<and> wouldLoop a e = (domain_part (splitAddress a) = ''example.com'')
    \<and> email m e = email m (e\<lparr>DOMAIN := Some ''example.com''\<rparr>)"
proof -
  from assms have g: "getDomain e = ''example.com''"
    by (auto simp: getDomain_def)
  have n: "norm ''example.com'' = ''example.com''" by code_simp
  have g': "getDomain (e\<lparr>DOMAIN := Some ''example.com''\<rparr>) = ''example.com''"
    by (simp add: getDomain_def n)
  have "email m (e\<lparr>DOMAIN := Some ''example.com''\<rparr>) = email m e"
    by (rule email_env_cong) (simp_all add: g g')
  with g show ?thesis
    by (simp add: wouldLoop_def isOurDomain_def)
qed

theorem getDomain_fallback_witness:
  "DOMAIN unset_env = None \<and> getDomain unset_env = ''example.com''
   \<and> DOMAIN blank_env = Some ''   '' \<and> norm ''   '' = [] \<and> getDomain blank_env = ''example.com''"
proof -
  have u: "DOMAIN unset_env = None" by (simp add: unset_env_def)
  have b: "DOMAIN blank_env = Some ''   ''" by (simp add: blank_env_def)
  have n: "norm ''   '' = []" by code_simp
  from b n have b': "DOMAIN blank_env = None \<or> (\<exists>d. DOMAIN blank_env = Some d \<and> norm d = [])"
    by blast
  from getDomain_fallback [OF disjI1, OF u] getDomain_fallback [OF b'] u b n
  show ?thesis by blast
qed

end
